theory Spec2Isabelle
  imports Complex_Main "HOL-Library.Char_ord" "HOL-Library.List_Lexorder"
    "HOL-Library.Product_Lexorder"
begin

section \<open>Strings\<close>

text \<open>
  Python strings are modelled as HOL strings (lists of 8-bit characters) and the model
  covers ASCII text: the case mappings change the letters A-Z and a-z only, and the
  whitespace of \<open>str.strip\<close> and of the regular-expression class \<open>\s\<close> is the ASCII
  whitespace of CPython (tab, line feed, vertical tab, form feed, carriage return, the
  separators 0x1C-0x1F and the space).
\<close>

definition ascii_uppercase :: string where
  "ascii_uppercase = ''ABCDEFGHIJKLMNOPQRSTUVWXYZ''"

definition ascii_lowercase :: string where
  "ascii_lowercase = ''abcdefghijklmnopqrstuvwxyz''"

definition digits :: string where
  "digits = ''0123456789''"

definition whitespace :: string where
  "whitespace = [CHR 0x09, CHR 0x0A, CHR 0x0B, CHR 0x0C, CHR 0x0D,
                 CHR 0x1C, CHR 0x1D, CHR 0x1E, CHR 0x1F, CHR 0x20]"

definition is_space :: "char \<Rightarrow> bool" where
  "is_space c = (c \<in> set whitespace)"

definition is_upper :: "char \<Rightarrow> bool" where
  "is_upper c = (c \<in> set ascii_uppercase)"


definition is_digit :: "char \<Rightarrow> bool" where
  "is_digit c = (c \<in> set digits)"

definition lower_char :: "char \<Rightarrow> char" where
  "lower_char c =
     (case map_of (zip ascii_uppercase ascii_lowercase) c of Some d \<Rightarrow> d | None \<Rightarrow> c)"

definition upper_char :: "char \<Rightarrow> char" where
  "upper_char c =
     (case map_of (zip ascii_lowercase ascii_uppercase) c of Some d \<Rightarrow> d | None \<Rightarrow> c)"

text \<open>\<open>s.lower()\<close>, \<open>s.upper()\<close>, \<open>s.strip()\<close> and \<open>s.rstrip(chars)\<close>.\<close>

definition str_lower :: "string \<Rightarrow> string" where
  "str_lower s = map lower_char s"

definition str_upper :: "string \<Rightarrow> string" where
  "str_upper s = map upper_char s"

definition str_rstrip :: "string \<Rightarrow> string \<Rightarrow> string" where
  "str_rstrip chars s = rev (dropWhile (\<lambda>c. c \<in> set chars) (rev s))"

definition str_strip :: "string \<Rightarrow> string" where
  "str_strip s = str_rstrip whitespace (dropWhile is_space s)"

section \<open>Regular expressions\<close>

text \<open>
  The patterns of the two programs are sequences of literal characters and of character
  classes repeated at least \<open>n\<close> times (\<open>[...]+\<close> is \<open>n = 1\<close>, \<open>[...]{2,}\<close> is \<open>n = 2\<close>).
  \<open>rx_rems r s\<close> lists what can remain of \<open>s\<close> after \<open>r\<close> has matched at its start, the
  longest match first, as the backtracking matcher of \<open>re\<close> tries them.
\<close>

datatype rx = Lit char | Rep nat string

fun rx_rems :: "rx \<Rightarrow> string \<Rightarrow> string list" where
  "rx_rems (Lit c) s = (case s of [] \<Rightarrow> [] | x # t \<Rightarrow> if x = c then [t] else [])"
| "rx_rems (Rep n cls) s =
     (let m = length (takeWhile (\<lambda>x. x \<in> set cls) s)
      in map (\<lambda>k. drop k s) (rev [n ..< Suc m]))"

fun rems :: "rx list \<Rightarrow> string \<Rightarrow> string list" where
  "rems [] s = [s]"
| "rems (r # rs) s = concat (map (rems rs) (rx_rems r s))"

text \<open>
  Without the MULTILINE flag, \<open>$\<close> matches at the end of the string and also just before
  a line feed that is the last character of the string.
\<close>

definition at_dollar :: "string \<Rightarrow> bool" where
  "at_dollar t = (t = [] \<or> t = [CHR 0x0A])"

text \<open>\<open>bool(re.compile("^" + rs + "$").match(s))\<close>.\<close>

definition re_match :: "rx list \<Rightarrow> string \<Rightarrow> bool" where
  "re_match rs s = list_ex at_dollar (rems rs s)"

section \<open>The normaliser of both programs\<close>

definition local_chars :: string where
  "local_chars = ascii_uppercase @ ascii_lowercase @ digits @ ''._%+-''"

definition domain_chars :: string where
  "domain_chars = ascii_uppercase @ ascii_lowercase @ digits @ ''.-''"

definition alpha_chars :: string where
  "alpha_chars = ascii_uppercase @ ascii_lowercase"

text \<open>\<open>EMAIL_REGEX = re.compile(r"^[A-Za-z0-9._%+\-]+@[A-Za-z0-9.\-]+\.[A-Za-z]{2,}$")\<close>\<close>

definition EMAIL_REGEX :: "rx list" where
  "EMAIL_REGEX =
     [Rep 1 local_chars, Lit (CHR ''@''), Rep 1 domain_chars, Lit (CHR ''.''), Rep 2 alpha_chars]"

text \<open>analise.py: \<open>normalize_text\<close>, \<open>normalize_email\<close>, \<open>is_valid_email\<close>.\<close>

definition normalize_text :: "string option \<Rightarrow> string" where
  "normalize_text v = str_strip (case v of None \<Rightarrow> [] | Some s \<Rightarrow> s)"

definition normalize_email :: "string option \<Rightarrow> string" where
  "normalize_email v = str_lower (normalize_text v)"

definition is_valid_email :: "string \<Rightarrow> bool" where
  "is_valid_email email = re_match EMAIL_REGEX email"

text \<open>
  sistema\_analise\_app.py, \<open>build_analysis\<close>: the cell of \<open>E_MAIL_NORM\<close> computed from the
  cell of \<open>E_MAIL\<close>, \<open>.str.strip().str.lower().str.rstrip(",")\<close>.
\<close>

definition e_mail_norm :: "string \<Rightarrow> string" where
  "e_mail_norm s = str_rstrip '','' (str_lower (str_strip s))"

text \<open>
  The shape the specification describes for a valid address: a non-empty local part of
  letters, digits and \<open>._%+-\<close>, an \<open>@\<close>, a non-empty domain of letters, digits and \<open>.-\<close>,
  a dot and a final label of two or more letters, and nothing else.
\<close>

definition email_shape :: "string \<Rightarrow> bool" where
  "email_shape e =
     (\<exists>l d t. e = l @ ''@'' @ d @ ''.'' @ t
        \<and> l \<noteq> [] \<and> set l \<subseteq> set local_chars
        \<and> d \<noteq> [] \<and> set d \<subseteq> set domain_chars
        \<and> 2 \<le> length t \<and> set t \<subseteq> set alpha_chars)"

section \<open>Python containers\<close>

text \<open>
  A \<open>Counter\<close> is a dictionary and keeps its keys in the order of their first insertion:
  it is modelled as an association list in that order. \<open>c[k] += 1\<close>:
\<close>

fun counter_incr :: "'k \<Rightarrow> ('k \<times> nat) list \<Rightarrow> ('k \<times> nat) list" where
  "counter_incr k [] = [(k, 1)]"
| "counter_incr k ((k', n) # kvs) =
     (if k = k' then (k', Suc n) # kvs else (k', n) # counter_incr k kvs)"

text \<open>
  A \<open>defaultdict(set)\<close>, again in insertion order of the keys, each set a list without
  duplicates (the order inside a set is never observed). \<open>d[k].add(v)\<close>:
\<close>

fun setdict_add :: "'k \<Rightarrow> 'v \<Rightarrow> ('k \<times> 'v list) list \<Rightarrow> ('k \<times> 'v list) list" where
  "setdict_add k v [] = [(k, [v])]"
| "setdict_add k v ((k', vs) # kvs) =
     (if k = k' then (k', List.insert v vs) # kvs else (k', vs) # setdict_add k v kvs)"

text \<open>
  \<open>sorted(xs, key=f, reverse=True)\<close> for a numeric key: Python's sort is stable, also
  with \<open>reverse=True\<close>, so elements with equal keys keep their order: it is the stable
  sort by the negated key.
\<close>

definition sorted_desc :: "('a \<Rightarrow> 'b::linordered_idom) \<Rightarrow> 'a list \<Rightarrow> 'a list" where
  "sorted_desc f xs = sort_key (\<lambda>x. - f x) xs"


text \<open>\<open>str(n)\<close> for a natural number.\<close>

fun str_nat :: "nat \<Rightarrow> string" where
  "str_nat n = (if n < 10 then [digits ! n] else str_nat (n div 10) @ [digits ! (n mod 10)])"

declare str_nat.simps [simp del]

section \<open>The batch program (analise.py)\<close>

text \<open>
  A row of \<open>csv.DictReader\<close> is a dictionary from column names to strings; \<open>row.get(k)\<close>
  is \<open>None\<close> for a column the file does not have.
\<close>

type_synonym row = "string \<rightharpoonup> string"


text \<open>The local variables of \<open>analyze\<close> that the loop updates, each under its name with \<open>v_\<close>.\<close>

record locals =
  v_total_rows :: nat
  v_missing_emails :: nat
  v_invalid_emails :: nat
  v_rows_with_trimmed_email :: nat
  v_duplicate_exact_rows :: nat
  v_unique_emails :: "string list"
  v_domain_counter :: "(string \<times> nat) list"
  v_repeated_email_counter :: "(string \<times> nat) list"
  v_row_count_by_document :: "(string \<times> nat) list"
  v_unique_email_count_by_document :: "(string \<times> string list) list"
  v_unique_email_count_by_taxpayer :: "(string \<times> string list) list"
  v_invalid_rows :: "row list"
  v_duplicate_rows :: "row list"
  v_seen_exact_rows :: "(string \<times> string \<times> string \<times> string) set"
  v_treated :: "row list"

definition init_locals :: locals where
  "init_locals = \<lparr> v_total_rows = 0, v_missing_emails = 0, v_invalid_emails = 0,
     v_rows_with_trimmed_email = 0, v_duplicate_exact_rows = 0, v_unique_emails = [],
     v_domain_counter = [], v_repeated_email_counter = [], v_row_count_by_document = [],
     v_unique_email_count_by_document = [], v_unique_email_count_by_taxpayer = [],
     v_invalid_rows = [], v_duplicate_rows = [], v_seen_exact_rows = {}, v_treated = [] \<rparr>"

text \<open>The per-row values computed at the head of the loop body.\<close>

definition creditor_name :: "row \<Rightarrow> string" where
  "creditor_name r = normalize_text (r ''NOME_CREDOR'')"

definition document :: "row \<Rightarrow> string" where
  "document r = normalize_text (r ''CPF_CNPJ'')"

definition taxpayer :: "row \<Rightarrow> string" where
  "taxpayer r = normalize_text (r ''NOME_CONTRIBUINTE'')"

definition raw_email :: "row \<Rightarrow> string" where
  "raw_email r = (case r ''E-MAIL'' of None \<Rightarrow> [] | Some s \<Rightarrow> s)"

definition clean_email :: "row \<Rightarrow> string" where
  "clean_email r = normalize_email (Some (raw_email r))"

definition row_identity :: "row \<Rightarrow> string \<times> string \<times> string \<times> string" where
  "row_identity r = (creditor_name r, document r, taxpayer r, clean_email r)"

text \<open>\<open>s.split("@", 1)[1]\<close> for a string that contains \<open>@\<close>: what follows the first \<open>@\<close>.\<close>

definition after_at :: "string \<Rightarrow> string" where
  "after_at s = drop 1 (dropWhile (\<lambda>c. c \<noteq> CHR ''@'') s)"

definition sim_nao :: "bool \<Rightarrow> string" where
  "sim_nao b = (if b then ''SIM'' else ''NAO'')"

text \<open>The body of the loop \<open>for line_number, row in enumerate(reader, start=2)\<close>.\<close>

definition loop_body :: "locals \<Rightarrow> nat \<times> row \<Rightarrow> locals" where
  "loop_body st lr =
    (let line_number = fst lr; r = snd lr;
         st = st\<lparr>v_total_rows := v_total_rows st + 1\<rparr>;
         email_had_trailing_or_leading_spaces = (raw_email r \<noteq> str_strip (raw_email r));
         st = (if email_had_trailing_or_leading_spaces
               then st\<lparr>v_rows_with_trimmed_email := v_rows_with_trimmed_email st + 1\<rparr> else st);
         st = st\<lparr>v_row_count_by_document := counter_incr (document r) (v_row_count_by_document st)\<rparr>;
         st = st\<lparr>v_repeated_email_counter :=
                   counter_incr (clean_email r) (v_repeated_email_counter st)\<rparr>;
         email_is_valid = (clean_email r \<noteq> [] \<and> is_valid_email (clean_email r));
         st = (if clean_email r = [] then st\<lparr>v_missing_emails := v_missing_emails st + 1\<rparr>
               else
                (let st = st\<lparr>v_unique_emails := List.insert (clean_email r) (v_unique_emails st)\<rparr>
                 in if is_valid_email (clean_email r) then
                      (let st = (if CHR ''@'' \<in> set (clean_email r)
                                 then st\<lparr>v_domain_counter :=
                                        counter_incr (after_at (clean_email r)) (v_domain_counter st)\<rparr>
                                 else st);
                           st = st\<lparr>v_unique_email_count_by_document :=
                                  setdict_add (document r) (clean_email r)
                                    (v_unique_email_count_by_document st)\<rparr>
                       in st\<lparr>v_unique_email_count_by_taxpayer :=
                                  setdict_add (taxpayer r) (clean_email r)
                                    (v_unique_email_count_by_taxpayer st)\<rparr>)
                    else
                      st\<lparr>v_invalid_emails := v_invalid_emails st + 1,
                         v_invalid_rows := v_invalid_rows st @
                           [[''LINHA_CSV'' \<mapsto> str_nat line_number,
                             ''NOME_CREDOR'' \<mapsto> creditor_name r,
                             ''CPF_CNPJ'' \<mapsto> document r,
                             ''NOME_CONTRIBUINTE'' \<mapsto> taxpayer r,
                             ''E_MAIL_ORIGINAL'' \<mapsto> raw_email r,
                             ''E_MAIL_TRATADO'' \<mapsto> clean_email r]]\<rparr>));
         is_duplicate_exact = (row_identity r \<in> v_seen_exact_rows st);
         st = (if is_duplicate_exact
               then st\<lparr>v_duplicate_exact_rows := v_duplicate_exact_rows st + 1,
                       v_duplicate_rows := v_duplicate_rows st @
                         [[''LINHA_CSV'' \<mapsto> str_nat line_number,
                           ''NOME_CREDOR'' \<mapsto> creditor_name r,
                           ''CPF_CNPJ'' \<mapsto> document r,
                           ''NOME_CONTRIBUINTE'' \<mapsto> taxpayer r,
                           ''E_MAIL_TRATADO'' \<mapsto> clean_email r]]\<rparr>
               else st\<lparr>v_seen_exact_rows := insert (row_identity r) (v_seen_exact_rows st)\<rparr>)
     in st\<lparr>v_treated := v_treated st @
              [r(''EMAIL_TRATADO'' \<mapsto> clean_email r,
                 ''EMAIL_VALIDO'' \<mapsto> sim_nao email_is_valid,
                 ''LINHA_DUPLICADA_EXATA'' \<mapsto> sim_nao is_duplicate_exact)]\<rparr>)"

text \<open>The whole loop over the rows of the reader, numbered from 2.\<close>

definition run_loop :: "row list \<Rightarrow> locals" where
  "run_loop rows = foldl loop_body init_locals (zip [2 ..< 2 + length rows] rows)"







datatype py_error = FileNotFoundError | ValueError string | KeyError string | OtherError string




text \<open>The row of scenario A of the specification, used to run the program on an example.\<close>

definition scenario_row :: row where
  "scenario_row = [''NOME_CREDOR'' \<mapsto> ''Acme'', ''CPF_CNPJ'' \<mapsto> ''12345678901'',
     ''NOME_CONTRIBUINTE'' \<mapsto> ''Joao'', ''E-MAIL'' \<mapsto> '' JOAO@GMAIL.COM '']"

section \<open>The interactive program (sistema\_analise\_app.py): constants and text helpers\<close>

definition PLACEHOLDER_LOCALS :: "string list" where
  "PLACEHOLDER_LOCALS = [''0'', ''00'', ''000'', ''x'', ''xx'', ''xxx'', ''xxxx'', ''teste'',
     ''test'', ''email'', ''naotem'', ''sem'', ''sememail'', ''naoconsta'', ''null'', ''none'',
     ''desconhecido'']"

definition PLACEHOLDER_DOMAINS :: "string list" where
  "PLACEHOLDER_DOMAINS = [''desconhecido.com'', ''sem.email'', ''naotem.com'', ''naotem.com.br'',
     ''naoconsta.com.br'', ''email.com'', ''teste.com'', ''test.com'']"

definition COMMON_TYPO_DOMAINS :: "string list" where
  "COMMON_TYPO_DOMAINS = [''gamil.com'', ''gmial.com'', ''gmail.con'', ''gmai.com'',
     ''hotnail.com'', ''hotmai.com'', ''hotmal.com'', ''yaho.com'', ''yhoo.com'', ''yahool.com'',
     ''outlok.com'', ''outllok.com'', ''otlook.com'']"

definition BRAZIL_UFS :: "string list" where
  "BRAZIL_UFS = [''AC'', ''AL'', ''AP'', ''AM'', ''BA'', ''CE'', ''DF'', ''ES'', ''GO'', ''MA'',
     ''MT'', ''MS'', ''MG'', ''PA'', ''PB'', ''PR'', ''PE'', ''PI'', ''RJ'', ''RN'', ''RS'', ''RO'',
     ''RR'', ''SC'', ''SP'', ''SE'', ''TO'']"

text \<open>The five roles of \<open>FIELD_LABELS\<close> and \<open>HEADER_ALIASES\<close>, in their dictionary order.\<close>

datatype field = Source | Document | Name | Email | Region


text \<open>\<open>normalize_text\<close> of the interactive program: \<open>str(value).strip()\<close>, or \<open>""\<close> for \<open>None\<close>.\<close>

definition normalize_text_app :: "string option \<Rightarrow> string" where
  "normalize_text_app v = (case v of None \<Rightarrow> [] | Some s \<Rightarrow> str_strip s)"

text \<open>
  \<open>unicodedata.normalize("NFKD", text).encode("ascii", "ignore").decode("ascii")\<close>: on ASCII
  text NFKD is the identity, and the encoding drops every character that is not ASCII.
  (The decomposition of an accented letter into its base letter is outside the 8-bit
  characters of this model: here such a letter is dropped.)
\<close>

definition ascii_ignore :: "string \<Rightarrow> string" where
  "ascii_ignore s = filter (\<lambda>c. \<not> digit7 c) s"




subsection \<open>\<open>extract_brazil_uf\<close>\<close>

text \<open>The word characters of \<open>\b\<close> on ASCII text: letters, digits and the underscore.\<close>

definition is_word_char :: "char \<Rightarrow> bool" where
  "is_word_char c = (c \<in> set (ascii_uppercase @ ascii_lowercase @ digits @ ''_''))"

text \<open>
  \<open>([A-Z]{2})\b\<close> matched at the start of \<open>s\<close>: two upper-case letters followed by the end
  of the text or by a character that is not a word character; the result is the group.
\<close>

fun code_at :: "string \<Rightarrow> string option" where
  "code_at (a # b # rest) =
     (if is_upper a \<and> is_upper b \<and> (case rest of [] \<Rightarrow> True | c # _ \<Rightarrow> \<not> is_word_char c)
      then Some [a, b] else None)"
| "code_at _ = None"

text \<open>
  \<open>re.findall(r"/\s*([A-Z]{2})\b", s)\<close>: the groups of the matches, left to right. A match
  starts at a slash, and no later slash lies inside it (after the slash come whitespace
  and two letters only), so the matches are found by trying every slash. Whitespace is
  never a letter, so the greedy \<open>\s*\<close> takes all of it and backtracking adds nothing.
\<close>

fun slash_codes :: "string \<Rightarrow> string list" where
  "slash_codes [] = []"
| "slash_codes (c # cs) =
     (if c = CHR ''/'' then (case code_at (dropWhile is_space cs) of Some k \<Rightarrow> [k] | None \<Rightarrow> [])
      else []) @ slash_codes cs"

text \<open>
  \<open>re.search(r"\b([A-Z]{2})\b\s*$", s)\<close>: the first position, left to right, that is at a
  word boundary (the flag says that the previous character is a word character), where
  two upper-case letters stand, and after which only whitespace follows (\<open>\s*\<close> also
  takes a final line feed, so \<open>$\<close> adds nothing to the end of the text).
\<close>

fun end_search :: "bool \<Rightarrow> string \<Rightarrow> string option" where
  "end_search prev [] = None"
| "end_search prev (c # cs) =
     (if \<not> prev \<and> code_at (c # cs) \<noteq> None \<and> list_all is_space (drop 1 cs)
      then code_at (c # cs) else end_search (is_word_char c) cs)"

text \<open>
  \<open>re.findall(r"\b([A-Z]{2})\b", s)\<close>: the two-letter upper-case words of the text, left
  to right (matches cannot overlap: each is a whole word).
\<close>

fun tokens_from :: "bool \<Rightarrow> string \<Rightarrow> string list" where
  "tokens_from prev [] = []"
| "tokens_from prev (c # cs) =
     (if prev then [] else (case code_at (c # cs) of Some k \<Rightarrow> [k] | None \<Rightarrow> []))
     @ tokens_from (is_word_char c) cs"

definition extract_brazil_uf :: "string option \<Rightarrow> string" where
  "extract_brazil_uf v =
     (let text = str_upper (normalize_text_app v)
      in if text = [] then []
         else
          (let normalized = ascii_ignore text;
               slash_match = slash_codes normalized
           in if slash_match \<noteq> [] \<and> last slash_match \<in> set BRAZIL_UFS then last slash_match
              else
               (case end_search False normalized of
                  Some g \<Rightarrow> if g \<in> set BRAZIL_UFS then g
                    else (let valid_tokens = filter (\<lambda>t. t \<in> set BRAZIL_UFS) (tokens_from False normalized)
                          in if valid_tokens \<noteq> [] then last valid_tokens else [])
                | None \<Rightarrow>
                    (let valid_tokens = filter (\<lambda>t. t \<in> set BRAZIL_UFS) (tokens_from False normalized)
                     in if valid_tokens \<noteq> [] then last valid_tokens else []))))"



section \<open>The interactive program: the column resolver\<close>

text \<open>
  A \<open>DataFrame\<close> read with \<open>dtype=str\<close>: its columns in order, each with its name and its
  cells (all columns have the same number of cells; missing cells are empty strings).
\<close>

type_synonym dataframe = "(string \<times> string list) list"


definition df_len :: "dataframe \<Rightarrow> nat" where
  "df_len df = (case df of [] \<Rightarrow> 0 | (c, cells) # _ \<Rightarrow> length cells)"










section \<open>The interactive program: the row classifier and the aggregator\<close>

text \<open>\<open>s.split("@", 1)\<close> for a string that contains \<open>@\<close>: the parts around the first \<open>@\<close>.\<close>

definition before_at :: "string \<Rightarrow> string" where
  "before_at s = takeWhile (\<lambda>c. c \<noteq> CHR ''@'') s"

definition classify_email :: "string \<Rightarrow> string list" where
  "classify_email email0 =
     (let email = str_rstrip '','' (str_lower (str_strip email0))
      in if email = [] then []
         else
          (let reasons = (if \<not> re_match EMAIL_REGEX email then [''formato_invalido''] else []);
               local = (if CHR ''@'' \<in> set email then before_at email else email);
               domain = (if CHR ''@'' \<in> set email then after_at email else []);
               reasons = reasons @ (if local \<in> set PLACEHOLDER_LOCALS \<or> domain \<in> set PLACEHOLDER_DOMAINS
                                    then [''placeholder_lixo''] else []);
               reasons = reasons @ (if domain \<in> set COMMON_TYPO_DOMAINS then [''dominio_typo''] else [])
           in reasons))"

definition repeat_bucket :: "int \<Rightarrow> string" where
  "repeat_bucket v =
     (if v \<le> 1 then ''1 vez''
      else if v = 2 then ''2 vezes''
      else if v = 3 then ''3 vezes''
      else if v \<le> 5 then ''4-5 vezes''
      else if v \<le> 10 then ''6-10 vezes''
      else ''11+ vezes'')"

text \<open>\<open>sep.join(xs)\<close>.\<close>

fun str_join :: "string \<Rightarrow> string list \<Rightarrow> string" where
  "str_join sep [] = []"
| "str_join sep [x] = x"
| "str_join sep (x # y # ys) = x @ sep @ str_join sep (y # ys)"

text \<open>
  \<open>Series.value_counts()\<close>: the distinct values with the number of their occurrences, the
  counts in descending order. The library documents the descending counts only; among
  equal counts the model keeps the order of first occurrence, and no statement below
  about the interactive program relies on that order.
\<close>

definition count_all :: "'k list \<Rightarrow> ('k \<times> nat) list" where
  "count_all ks = foldl (\<lambda>c k. counter_incr k c) [] ks"

definition value_counts :: "'k list \<Rightarrow> ('k \<times> nat) list" where
  "value_counts ks = sorted_desc (\<lambda>item. int (snd item)) (count_all ks)"

text \<open>\<open>base.loc[mask, column] = value\<close> on one column.\<close>

definition loc_assign :: "bool list \<Rightarrow> 'a \<Rightarrow> 'a list \<Rightarrow> 'a list" where
  "loc_assign row_mask v col = map (\<lambda>(m, old). if m then v else old) (zip row_mask col)"

text \<open>
  \<open>pick_column\<close>: a column of empty strings when no column is selected, else the cells of
  the selected column, trimmed; \<open>df[selected_col]\<close> raises \<open>KeyError\<close> for a name that is
  not a column.
\<close>

definition pick_column :: "dataframe \<Rightarrow> string option \<Rightarrow> py_error + string list" where
  "pick_column df selected_col =
     (case selected_col of
        None \<Rightarrow> Inr (replicate (df_len df) [])
      | Some col \<Rightarrow>
          if col = [] then Inr (replicate (df_len df) [])
          else (case map_of df col of
                  None \<Rightarrow> Inl (KeyError col)
                | Some cells \<Rightarrow> Inr (map str_strip cells)))"

text \<open>
  The table \<open>base\<close> of \<open>build_analysis\<close>, column by column, and the tables derived from it
  that the statements below are about. (The columns \<open>FAMILIA_DOMINIO\<close>, the row subsets
  and the metrics are not modelled.)
\<close>

record base_table =
  ORIGEM :: "string list"
  CPF_CNPJ :: "string list"
  NOME :: "string list"
  E_MAIL :: "string list"
  REGIAO :: "string list"
  CPF_CNPJ_NORM :: "string list"
  E_MAIL_NORM :: "string list"
  DOMINIO :: "string list"
  QTD_REPETICOES_EMAIL :: "int list"
  EMAIL_REPETIDO :: "bool list"
  SUSPEITO_RAZOES :: "string list"
  EMAIL_SUSPEITO :: "bool list"
  EMAIL_FORMATO_VALIDO :: "bool list"
  FAIXA_REPETICAO :: "string list"
  UF_REGIAO :: "string list"
  STATUS_EMAIL :: "string list"

record analysis =
  base :: base_table
  repeated_summary :: "(string \<times> nat) list"
  top_domains_app :: "(string \<times> nat) list"

definition analyse_columns ::
  "string list \<Rightarrow> string list \<Rightarrow> string list \<Rightarrow> string list \<Rightarrow> string list \<Rightarrow> analysis" where
  "analyse_columns origem cpf_cnpj nome e_mail regiao =
     (let cpf_cnpj_norm = map (filter is_digit) cpf_cnpj;
          e_mail_norm_col = map e_mail_norm e_mail;
          dominio = map (\<lambda>e. if CHR ''@'' \<in> set e then after_at e else []) e_mail_norm_col;
          non_empty_email = filter (\<lambda>e. e \<noteq> []) e_mail_norm_col;
          email_counts = value_counts non_empty_email;
          repeated_email_counts = filter (\<lambda>item. snd item > 1) email_counts;
          qtd = map (\<lambda>e. case map_of email_counts e of Some n \<Rightarrow> int n | None \<Rightarrow> 0) e_mail_norm_col;
          email_repetido = map (\<lambda>q. q > 1) qtd;
          classification = map classify_email e_mail_norm_col;
          suspeito_razoes = map (str_join '';'') classification;
          email_suspeito = map (\<lambda>s. s \<noteq> []) suspeito_razoes;
          email_formato_valido = map (re_match EMAIL_REGEX) e_mail_norm_col;
          faixa = map repeat_bucket qtd;
          uf = map (\<lambda>r. extract_brazil_uf (Some r)) regiao;
          status = replicate (length e_mail_norm_col) ''Unico limpo'';
          status = loc_assign (map (\<lambda>q. q > 1) qtd) ''Repetido'' status;
          status = loc_assign email_suspeito ''Suspeito'' status;
          status = loc_assign (map (\<lambda>(e, v). e \<noteq> [] \<and> \<not> v) (zip e_mail_norm_col email_formato_valido))
                     ''Invalido'' status;
          status = loc_assign (map (\<lambda>e. e = []) e_mail_norm_col) ''Sem email'' status;
          summary_table = sort_key (\<lambda>item. (- int (snd item), fst item)) repeated_email_counts;
          domain_series = map after_at (filter (\<lambda>e. CHR ''@'' \<in> set e) non_empty_email)
      in \<lparr> base = \<lparr> ORIGEM = origem, CPF_CNPJ = cpf_cnpj, NOME = nome, E_MAIL = e_mail,
                     REGIAO = regiao, CPF_CNPJ_NORM = cpf_cnpj_norm, E_MAIL_NORM = e_mail_norm_col,
                     DOMINIO = dominio, QTD_REPETICOES_EMAIL = qtd, EMAIL_REPETIDO = email_repetido,
                     SUSPEITO_RAZOES = suspeito_razoes, EMAIL_SUSPEITO = email_suspeito,
                     EMAIL_FORMATO_VALIDO = email_formato_valido, FAIXA_REPETICAO = faixa,
                     UF_REGIAO = uf, STATUS_EMAIL = status \<rparr>,
           repeated_summary = summary_table,
           top_domains_app = value_counts domain_series \<rparr>)"

definition build_analysis :: "dataframe \<Rightarrow> (field \<rightharpoonup> string) \<Rightarrow> py_error + analysis" where
  "build_analysis df mapping =
     (case pick_column df (mapping Source) of Inl e \<Rightarrow> Inl e | Inr origem \<Rightarrow>
      case pick_column df (mapping Document) of Inl e \<Rightarrow> Inl e | Inr cpf_cnpj \<Rightarrow>
      case pick_column df (mapping Name) of Inl e \<Rightarrow> Inl e | Inr nome \<Rightarrow>
      case pick_column df (mapping Email) of Inl e \<Rightarrow> Inl e | Inr e_mail \<Rightarrow>
      case pick_column df (mapping Region) of Inl e \<Rightarrow> Inl e | Inr regiao \<Rightarrow>
        Inr (analyse_columns origem cpf_cnpj nome e_mail regiao))"

text \<open>
  The rules of the status label as the specification lists them, each with its
  condition; the label of a row is that of the last rule whose condition holds.
\<close>

definition status_rules :: "int \<Rightarrow> bool \<Rightarrow> bool \<Rightarrow> string \<Rightarrow> (bool \<times> string) list" where
  "status_rules qtd suspect valid email =
     [(True, ''Unico limpo''), (qtd > 1, ''Repetido''), (suspect, ''Suspeito''),
      (email \<noteq> [] \<and> \<not> valid, ''Invalido''), (email = [], ''Sem email'')]"

definition last_applicable :: "(bool \<times> string) list \<Rightarrow> string" where
  "last_applicable rules = snd (last (filter fst rules))"

text \<open>A small table with one column of emails, and the mapping that selects it.\<close>

definition example_df :: dataframe where
  "example_df = [(''email'', [''a@b.com'', '''', ''A@B.COM'', ''teste@teste.com'', ''x@y''])]"

definition example_mapping :: "field \<rightharpoonup> string" where
  "example_mapping = [Email \<mapsto> ''email'']"

definition example_analysis :: analysis where
  "example_analysis = analyse_columns (replicate 5 []) (replicate 5 []) (replicate 5 [])
     [''a@b.com'', '''', ''A@B.COM'', ''teste@teste.com'', ''x@y''] (replicate 5 [])"

text \<open>
  The value of \<open>email_is_valid\<close> in the loop of \<open>analyze\<close> for a row: the normalised email
  is not empty and passes the format check.
\<close>

definition valid_email_row :: "row \<Rightarrow> bool" where
  "valid_email_row r = (clean_email r \<noteq> [] \<and> is_valid_email (clean_email r))"



section \<open>The interactive program: reading the upload\<close>














section \<open>Orders of the rankings\<close>









section \<open>Facts about strings\<close>

lemma lower_char_idem: "lower_char (lower_char c) = lower_char c"
  by (simp add: lower_char_def ascii_uppercase_def ascii_lowercase_def)

lemma is_space_lower_char: "is_space (lower_char c) = is_space c"
  by (simp add: lower_char_def is_space_def whitespace_def ascii_uppercase_def
      ascii_lowercase_def)

lemma str_lower_idem: "str_lower (str_lower s) = str_lower s"
  by (simp add: str_lower_def lower_char_idem)

lemma dropWhile_space_lower:
  "dropWhile is_space (str_lower s) = str_lower (dropWhile is_space s)"
  by (induction s) (simp_all add: str_lower_def is_space_lower_char)

lemma str_lower_rev: "str_lower (rev s) = rev (str_lower s)"
  by (simp add: str_lower_def rev_map)

lemma rstrip_ws_lower:
  "str_rstrip whitespace (str_lower s) = str_lower (str_rstrip whitespace s)"
proof -
  have "dropWhile (\<lambda>c. c \<in> set whitespace) (rev (str_lower s))
        = str_lower (dropWhile (\<lambda>c. c \<in> set whitespace) (rev s))"
    using dropWhile_space_lower [of "rev s"]
    by (simp add: is_space_def [abs_def] str_lower_rev)
  then show ?thesis
    by (simp add: str_rstrip_def str_lower_rev)
qed

lemma str_strip_lower: "str_strip (str_lower s) = str_lower (str_strip s)"
  using dropWhile_space_lower [of s]
  by (simp add: str_strip_def rstrip_ws_lower)

lemma str_rstrip_idem: "str_rstrip cs (str_rstrip cs s) = str_rstrip cs s"
  by (simp add: str_rstrip_def)

lemma rstrip_prefix: "\<exists>us. zs = rev (dropWhile Q (rev zs)) @ us"
proof -
  have "rev zs = takeWhile Q (rev zs) @ dropWhile Q (rev zs)"
    by simp
  then have "rev (rev zs) = rev (takeWhile Q (rev zs) @ dropWhile Q (rev zs))"
    by (rule arg_cong)
  then have "zs = rev (dropWhile Q (rev zs)) @ rev (takeWhile Q (rev zs))"
    by (simp only: rev_append rev_rev_ident)
  then show ?thesis ..
qed

lemma dropWhile_rstrip:
  assumes "dropWhile P zs = zs"
  shows "dropWhile P (rev (dropWhile Q (rev zs))) = rev (dropWhile Q (rev zs))"
proof (cases "rev (dropWhile Q (rev zs))")
  case Nil
  then show ?thesis by (simp only: dropWhile.simps)
next
  case (Cons y ys)
  obtain us where "zs = rev (dropWhile Q (rev zs)) @ us"
    using rstrip_prefix by blast
  with Cons have zs: "zs = y # ys @ us"
    by simp
  have "\<not> P y"
    by (metis assms zs hd_dropWhile list.sel(1) list.distinct(1))
  with Cons show ?thesis
    by (simp only: dropWhile.simps if_False)
qed

lemma str_strip_idem: "str_strip (str_strip s) = str_strip s"
proof -
  have "dropWhile is_space (str_strip s) = str_strip s"
    unfolding str_strip_def str_rstrip_def by (rule dropWhile_rstrip) simp
  then show ?thesis
    by (simp add: str_strip_def [of "str_strip s"]) (simp add: str_strip_def str_rstrip_idem)
qed

lemma dropWhile_space_strip: "dropWhile is_space (str_strip s) = str_strip s"
  unfolding str_strip_def str_rstrip_def by (rule dropWhile_rstrip) simp

lemma str_lower_fixed:
  assumes "set t \<subseteq> set (str_lower u)"
  shows "str_lower t = t"
proof -
  have "lower_char c = c" if "c \<in> set t" for c
  proof -
    from that assms obtain x where "c = lower_char x"
      by (auto simp: str_lower_def)
    then show ?thesis
      by (simp add: lower_char_idem)
  qed
  then show ?thesis
    by (simp add: str_lower_def map_idI)
qed

lemma set_str_rstrip: "set (str_rstrip cs s) \<subseteq> set s"
  using set_dropWhileD [of _ "\<lambda>c. c \<in> set cs" "rev s"]
  by (auto simp: str_rstrip_def)

lemma str_rstrip_last:
  assumes "t = [] \<or> last t \<notin> set cs"
  shows "str_rstrip cs t = t"
proof (cases t rule: rev_cases)
  case Nil
  then show ?thesis by (simp add: str_rstrip_def)
next
  case (snoc ys y)
  with assms show ?thesis by (simp add: str_rstrip_def)
qed

lemma e_mail_norm_fixed:
  assumes "e_mail_norm s = [] \<or> \<not> is_space (last (e_mail_norm s))"
  shows "e_mail_norm (e_mail_norm s) = e_mail_norm s"
proof -
  define u where "u = str_lower (str_strip s)"
  define t where "t = e_mail_norm s"
  have t: "t = str_rstrip '','' u"
    by (simp add: t_def u_def e_mail_norm_def)
  have "dropWhile is_space u = u"
    by (simp add: u_def dropWhile_space_lower dropWhile_space_strip)
  then have "dropWhile is_space t = t"
    unfolding t str_rstrip_def by (rule dropWhile_rstrip)
  moreover have "str_rstrip whitespace t = t"
    using assms by (intro str_rstrip_last) (simp add: t_def is_space_def)
  ultimately have strip: "str_strip t = t"
    by (simp add: str_strip_def)
  have "set t \<subseteq> set (str_lower (str_strip s))"
    using set_str_rstrip [of "'',''" u] by (simp add: t u_def)
  then have low: "str_lower t = t"
    by (rule str_lower_fixed)
  have "str_rstrip '','' t = t"
    by (simp add: t str_rstrip_idem)
  with strip low have "e_mail_norm t = t"
    by (simp add: e_mail_norm_def)
  then show ?thesis
    by (simp add: t_def)
qed

lemma normalize_email_idem: "normalize_email (Some (normalize_email v)) = normalize_email v"
  by (simp add: normalize_email_def normalize_text_def str_strip_lower str_strip_idem
      str_lower_idem)

section \<open>Idempotence of the normalisation (C6)\<close>

text \<open>
  C6 (normalising an already normalised email changes nothing) fails in the interactive
  program at the cell \<open>a@b.com ,\<close>: it is trimmed first and its trailing comma stripped
  after, so the value of \<open>E_MAIL_NORM\<close> ends in a space and is not trimmed; normalising
  that value again removes the space. The program itself normalises the value again in
  \<open>classify_email\<close>, and its two paths then disagree on the row: the format check on
  \<open>E_MAIL_NORM\<close> fails, while the classification finds no format problem.
\<close>

theorem C6_e_mail_norm_not_idempotent:
  "e_mail_norm ''a@b.com ,'' = ''a@b.com ''
   \<and> e_mail_norm (e_mail_norm ''a@b.com ,'') = ''a@b.com''
   \<and> \<not> re_match EMAIL_REGEX (e_mail_norm ''a@b.com ,'')
   \<and> classify_email (e_mail_norm ''a@b.com ,'') = []"
  by code_simp

text \<open>
  What does hold: \<open>normalize_email\<close> of the batch program (trim, then lower-case; it
  strips no comma) returns an already normalised value unchanged, for every input,
  absent values included; the \<open>E_MAIL_NORM\<close> derivation of the interactive program returns
  an already normalised value unchanged whenever that value does not end in whitespace.
\<close>

theorem normalization_idempotent:
  "normalize_email (Some (normalize_email v)) = normalize_email v
   \<and> (e_mail_norm s = [] \<or> \<not> is_space (last (e_mail_norm s))
        \<longrightarrow> e_mail_norm (e_mail_norm s) = e_mail_norm s)"
  using normalize_email_idem e_mail_norm_fixed by blast

theorem normalization_idempotent_example:
  "normalize_email (Some (normalize_email (Some '' JOAO@GMAIL.COM ''))) = ''joao@gmail.com''
   \<and> e_mail_norm ''Joao@Gmail.com,,'' = ''joao@gmail.com''
   \<and> \<not> is_space (last (e_mail_norm ''Joao@Gmail.com,,''))
   \<and> e_mail_norm (e_mail_norm ''Joao@Gmail.com,,'') = ''joao@gmail.com''"
proof -
  have n: "normalize_email (Some '' JOAO@GMAIL.COM '') = ''joao@gmail.com''"
    by (simp add: normalize_email_def normalize_text_def str_rstrip_def str_strip_def
        str_lower_def lower_char_def is_space_def whitespace_def ascii_uppercase_def
        ascii_lowercase_def)
  have e: "e_mail_norm ''Joao@Gmail.com,,'' = ''joao@gmail.com''"
    by (simp add: e_mail_norm_def str_rstrip_def str_strip_def str_lower_def lower_char_def
        is_space_def whitespace_def ascii_uppercase_def ascii_lowercase_def)
  have h: "\<not> is_space (last (e_mail_norm ''Joao@Gmail.com,,''))"
    by (simp add: e is_space_def whitespace_def)
  from normalization_idempotent [of "Some '' JOAO@GMAIL.COM ''" "''Joao@Gmail.com,,''"] h
  have "normalize_email (Some (normalize_email (Some '' JOAO@GMAIL.COM '')))
          = normalize_email (Some '' JOAO@GMAIL.COM '')"
    and "e_mail_norm (e_mail_norm ''Joao@Gmail.com,,'') = e_mail_norm ''Joao@Gmail.com,,''"
    by simp_all
  with n e h show ?thesis
    by simp
qed

section \<open>The format check against the shape of the specification (C2)\<close>

lemma rx_rems_Lit: "t \<in> set (rx_rems (Lit c) s) \<longleftrightarrow> s = c # t"
  by (auto split: list.splits)

lemma rx_rems_Rep:
  "t \<in> set (rx_rems (Rep n cls) s) \<longleftrightarrow> (\<exists>p. s = p @ t \<and> n \<le> length p \<and> set p \<subseteq> set cls)"
proof
  assume "t \<in> set (rx_rems (Rep n cls) s)"
  then obtain k where k: "n \<le> k" "k \<le> length (takeWhile (\<lambda>x. x \<in> set cls) s)" "t = drop k s"
    by (auto simp: Let_def)
  have "take k s = take k (takeWhile (\<lambda>x. x \<in> set cls) s)"
    using k(2) by (metis append_eq_conv_conj takeWhile_dropWhile_id take_append min.absorb2
        diff_is_0_eq take_0 append_Nil2 length_take min.commute)
  then have "set (take k s) \<subseteq> set cls"
    using set_take_subset [of k "takeWhile (\<lambda>x. x \<in> set cls) s"] set_takeWhileD by fastforce
  moreover have "length (take k s) = k"
    using k(2) length_takeWhile_le [of "\<lambda>x. x \<in> set cls" s] by simp
  ultimately show "\<exists>p. s = p @ t \<and> n \<le> length p \<and> set p \<subseteq> set cls"
    using k(1,3) by (intro exI [of _ "take k s"]) simp
next
  assume "\<exists>p. s = p @ t \<and> n \<le> length p \<and> set p \<subseteq> set cls"
  then obtain p where p: "s = p @ t" "n \<le> length p" "set p \<subseteq> set cls"
    by blast
  have "takeWhile (\<lambda>x. x \<in> set cls) s = p @ takeWhile (\<lambda>x. x \<in> set cls) t"
    using p(1,3) by (simp add: takeWhile_append2 subset_iff)
  then have "length p \<le> length (takeWhile (\<lambda>x. x \<in> set cls) s)"
    by simp
  with p(2) have "length p \<in> set (rev [n ..< Suc (length (takeWhile (\<lambda>x. x \<in> set cls) s))])"
    by (simp add: less_Suc_eq_le del: upt_Suc)
  moreover have "t = drop (length p) s"
    using p(1) by simp
  ultimately have "t \<in> (\<lambda>k. drop k s) ` set (rev [n ..< Suc (length (takeWhile (\<lambda>x. x \<in> set cls) s))])"
    by (rule image_eqI [rotated])
  then show "t \<in> set (rx_rems (Rep n cls) s)"
    by (simp add: Let_def)
qed

lemma rems_EMAIL_REGEX:
  "r \<in> set (rems EMAIL_REGEX e) \<longleftrightarrow>
     (\<exists>l d t. e = l @ ''@'' @ d @ ''.'' @ t @ r
        \<and> l \<noteq> [] \<and> set l \<subseteq> set local_chars
        \<and> d \<noteq> [] \<and> set d \<subseteq> set domain_chars
        \<and> 2 \<le> length t \<and> set t \<subseteq> set alpha_chars)"
  (is "?L \<longleftrightarrow> ?R")
proof
  assume ?L
  then obtain r1 r2 r3 r4 where
    "r1 \<in> set (rx_rems (Rep 1 local_chars) e)"
    "r2 \<in> set (rx_rems (Lit (CHR ''@'')) r1)"
    "r3 \<in> set (rx_rems (Rep 1 domain_chars) r2)"
    "r4 \<in> set (rx_rems (Lit (CHR ''.'')) r3)"
    "r \<in> set (rx_rems (Rep 2 alpha_chars) r4)"
    unfolding EMAIL_REGEX_def rems.simps by (auto simp del: rx_rems.simps)
  then obtain l d t where
    "e = l @ r1" "1 \<le> length l" "set l \<subseteq> set local_chars" "r1 = CHR ''@'' # r2"
    "r2 = d @ r3" "1 \<le> length d" "set d \<subseteq> set domain_chars" "r3 = CHR ''.'' # r4"
    "r4 = t @ r" "2 \<le> length t" "set t \<subseteq> set alpha_chars"
    unfolding rx_rems_Lit rx_rems_Rep by blast
  then show ?R
    by (intro exI [of _ l] exI [of _ d] exI [of _ t]) auto
next
  assume ?R
  then obtain l d t where ldt:
    "e = l @ ''@'' @ d @ ''.'' @ t @ r" "l \<noteq> []" "set l \<subseteq> set local_chars"
    "d \<noteq> []" "set d \<subseteq> set domain_chars" "2 \<le> length t" "set t \<subseteq> set alpha_chars"
    by blast
  have 1: "''@'' @ d @ ''.'' @ t @ r \<in> set (rx_rems (Rep 1 local_chars) e)"
    unfolding rx_rems_Rep using ldt(1,2,3) by (intro exI [of _ l]) (simp add: Suc_le_eq)
  have 2: "d @ ''.'' @ t @ r \<in> set (rx_rems (Lit (CHR ''@'')) (''@'' @ d @ ''.'' @ t @ r))"
    unfolding rx_rems_Lit by simp
  have 3: "''.'' @ t @ r \<in> set (rx_rems (Rep 1 domain_chars) (d @ ''.'' @ t @ r))"
    unfolding rx_rems_Rep using ldt(4,5) by (intro exI [of _ d]) (simp add: Suc_le_eq)
  have 4: "t @ r \<in> set (rx_rems (Lit (CHR ''.'')) (''.'' @ t @ r))"
    unfolding rx_rems_Lit by simp
  have 5: "r \<in> set (rx_rems (Rep 2 alpha_chars) (t @ r))"
    unfolding rx_rems_Rep using ldt(6,7) by (intro exI [of _ t]) simp
  from 1 2 3 4 5 show ?L
    unfolding EMAIL_REGEX_def rems.simps by (auto simp del: rx_rems.simps)
qed

lemma is_valid_email_iff:
  "is_valid_email e \<longleftrightarrow> email_shape e \<or> (\<exists>e'. e = e' @ [CHR 0x0A] \<and> email_shape e')"
proof -
  have "is_valid_email e \<longleftrightarrow> [] \<in> set (rems EMAIL_REGEX e) \<or> [CHR 0x0A] \<in> set (rems EMAIL_REGEX e)"
    by (auto simp: is_valid_email_def re_match_def list_ex_iff at_dollar_def)
  moreover have "[] \<in> set (rems EMAIL_REGEX e) \<longleftrightarrow> email_shape e"
    unfolding rems_EMAIL_REGEX email_shape_def by simp
  moreover have "[CHR 0x0A] \<in> set (rems EMAIL_REGEX e) \<longleftrightarrow> (\<exists>e'. e = e' @ [CHR 0x0A] \<and> email_shape e')"
    unfolding rems_EMAIL_REGEX email_shape_def
    by (rule iffI; clarsimp) (metis append_assoc append_Cons append_Nil)+
  ultimately show ?thesis
    by simp
qed

lemma email_shape_last2:
  assumes "email_shape e"
  shows "\<exists>x a b. e = x @ [a, b] \<and> a \<in> set alpha_chars \<and> b \<in> set alpha_chars"
proof -
  from assms obtain l d t where e: "e = l @ ''@'' @ d @ ''.'' @ t"
    and t: "2 \<le> length t" "set t \<subseteq> set alpha_chars"
    unfolding email_shape_def by blast
  from t(1) obtain t' b where t': "t = t' @ [b]"
    by (cases t rule: rev_cases) auto
  with t(1) obtain u a where "t' = u @ [a]"
    by (cases t' rule: rev_cases) auto
  with t' have u: "t = u @ [a, b]"
    by simp
  with t(2) have "a \<in> set alpha_chars" "b \<in> set alpha_chars"
    by auto
  moreover have "e = (l @ ''@'' @ d @ ''.'' @ u) @ [a, b]"
    by (simp add: e u)
  ultimately show ?thesis
    by blast
qed

lemma email_shape_last:
  assumes "email_shape e"
  shows "last e \<in> set alpha_chars"
proof -
  from email_shape_last2 [OF assms] obtain x a b
    where "e = x @ [a, b]" and "b \<in> set alpha_chars"
    by (elim exE conjE)
  then show ?thesis
    by simp
qed

lemma not_alpha_dot: "CHR ''.'' \<notin> set alpha_chars"
  by (simp add: alpha_chars_def ascii_uppercase_def ascii_lowercase_def)

lemma not_alpha_newline: "CHR 0x0A \<notin> set alpha_chars"
  by (simp add: alpha_chars_def ascii_uppercase_def ascii_lowercase_def)

lemma short_label_rejected:
  assumes "set t \<subseteq> set alpha_chars" and "length t < 2"
  shows "\<not> is_valid_email (l @ ''@'' @ d @ ''.'' @ t)"
proof
  define e where "e = l @ ''@'' @ d @ ''.'' @ t"
  assume "is_valid_email (l @ ''@'' @ d @ ''.'' @ t)"
  then consider "email_shape e" | e' where "e = e' @ [CHR 0x0A]" "email_shape e'"
    unfolding e_def [symmetric] is_valid_email_iff by blast
  then show False
  proof cases
    case 1
    then obtain x a b where x: "e = x @ [a, b]" "a \<in> set alpha_chars" "b \<in> set alpha_chars"
      using email_shape_last2 by blast
    show False
    proof (cases t)
      case Nil
      then have "e = (l @ ''@'' @ d) @ ''.''"
        by (simp add: e_def)
      then have "last e = CHR ''.''"
        by (simp only: last_snoc)
      moreover have "last e = b"
        by (simp add: x(1))
      ultimately have "b = CHR ''.''"
        by simp
      with x(3) not_alpha_dot show False
        by simp
    next
      case (Cons c cs)
      with assms(2) have "e = (l @ ''@'' @ d) @ [CHR ''.'', c]"
        by (simp add: e_def)
      with x(1) have "a = CHR ''.''"
        by simp
      with x(2) not_alpha_dot show False
        by simp
    qed
  next
    case 2
    then have "last e = CHR 0x0A"
      by simp
    moreover have "last e = CHR ''.'' \<or> last e \<in> set alpha_chars"
      using assms(1) by (cases t rule: rev_cases) (auto simp: e_def)
    ultimately show False
      using not_alpha_newline by auto
  qed
qed

lemma long_label_accepted:
  assumes "l \<noteq> []" "set l \<subseteq> set local_chars" "d \<noteq> []" "set d \<subseteq> set domain_chars"
    "set t \<subseteq> set alpha_chars" "2 \<le> length t"
  shows "is_valid_email (l @ ''@'' @ d @ ''.'' @ t)"
proof -
  from assms have "email_shape (l @ ''@'' @ d @ ''.'' @ t)"
    unfolding email_shape_def by (intro exI [of _ l] exI [of _ d] exI [of _ t]) simp
  then show ?thesis
    by (simp add: is_valid_email_iff)
qed

text \<open>
  C2, as stated for every string, fails: \<open>$\<close> also matches before a final line feed, so
  an address followed by one line feed is accepted although the string as a whole does
  not have the shape. (The batch program validates trimmed strings only, which never
  end in a line feed.)
\<close>

theorem C2_final_line_feed_accepted:
  "is_valid_email (''a@b.co'' @ [CHR 0x0A]) \<and> \<not> email_shape (''a@b.co'' @ [CHR 0x0A])"
proof
  have "email_shape ''a@b.co''"
    unfolding email_shape_def
    by (intro exI [of _ "''a''"] exI [of _ "''b''"] exI [of _ "''co''"])
      (simp add: local_chars_def domain_chars_def alpha_chars_def ascii_lowercase_def)
  then show "is_valid_email (''a@b.co'' @ [CHR 0x0A])"
    unfolding is_valid_email_iff by blast
next
  show "\<not> email_shape (''a@b.co'' @ [CHR 0x0A])"
  proof
    assume "email_shape (''a@b.co'' @ [CHR 0x0A])"
    then have "last (''a@b.co'' @ [CHR 0x0A]) \<in> set alpha_chars"
      by (rule email_shape_last)
    then have "CHR 0x0A \<in> set alpha_chars"
      by (simp only: last_snoc)
    with not_alpha_newline show False
      by simp
  qed
qed

text \<open>
  C2, amended: for every string \<open>e\<close> that does not end in a line feed, as every trimmed
  string, \<open>is_valid_email e\<close> holds if and only if \<open>e\<close> has the shape in full: one or more
  characters from letters, digits and \<open>._%+-\<close>, then \<open>@\<close>, then one or more characters from
  letters, digits and \<open>.-\<close>, then a dot, then two or more letters. An address of
  otherwise valid shape is accepted if and only if its final label has two or more
  letters.
\<close>

theorem C2_is_valid_email:
  "(e = [] \<or> last e \<noteq> CHR 0x0A \<longrightarrow> (is_valid_email e \<longleftrightarrow> email_shape e))
   \<and> (l \<noteq> [] \<and> set l \<subseteq> set local_chars \<and> d \<noteq> [] \<and> set d \<subseteq> set domain_chars
        \<and> set t \<subseteq> set alpha_chars
      \<longrightarrow> (is_valid_email (l @ ''@'' @ d @ ''.'' @ t) \<longleftrightarrow> 2 \<le> length t))"
proof (intro conjI impI)
  assume "e = [] \<or> last e \<noteq> CHR 0x0A"
  then have "\<not> (\<exists>e'. e = e' @ [CHR 0x0A] \<and> email_shape e')"
    by auto
  then show "is_valid_email e \<longleftrightarrow> email_shape e"
    unfolding is_valid_email_iff by blast
next
  assume "l \<noteq> [] \<and> set l \<subseteq> set local_chars \<and> d \<noteq> [] \<and> set d \<subseteq> set domain_chars
        \<and> set t \<subseteq> set alpha_chars"
  then show "is_valid_email (l @ ''@'' @ d @ ''.'' @ t) \<longleftrightarrow> 2 \<le> length t"
    using short_label_rejected [of t l d] long_label_accepted [of l d t]
    by (cases "2 \<le> length t") (simp_all add: not_le)
qed

theorem C2_is_valid_email_witness:
  "last ''joao@gmail.com'' \<noteq> CHR 0x0A
   \<and> is_valid_email ''joao@gmail.com'' \<and> email_shape ''joao@gmail.com''
   \<and> ''joao'' \<noteq> [] \<and> set ''joao'' \<subseteq> set local_chars
   \<and> ''gmail'' \<noteq> [] \<and> set ''gmail'' \<subseteq> set domain_chars \<and> set ''c'' \<subseteq> set alpha_chars
   \<and> \<not> is_valid_email (''joao'' @ ''@'' @ ''gmail'' @ ''.'' @ ''c'')"
proof -
  have v: "is_valid_email ''joao@gmail.com''"
    by code_simp
  have h1: "''joao@gmail.com'' = [] \<or> last ''joao@gmail.com'' \<noteq> CHR 0x0A"
    by simp
  have h2: "''joao'' \<noteq> [] \<and> set ''joao'' \<subseteq> set local_chars
     \<and> ''gmail'' \<noteq> [] \<and> set ''gmail'' \<subseteq> set domain_chars \<and> set ''c'' \<subseteq> set alpha_chars"
    by (simp add: local_chars_def domain_chars_def alpha_chars_def ascii_lowercase_def)
  note inst = C2_is_valid_email [of "''joao@gmail.com''" "''joao''" "''gmail''" "''c''"]
  have a: "is_valid_email ''joao@gmail.com'' \<longleftrightarrow> email_shape ''joao@gmail.com''"
    by (rule inst [THEN conjunct1, THEN mp, OF h1])
  have b: "is_valid_email (''joao'' @ ''@'' @ ''gmail'' @ ''.'' @ ''c'') \<longleftrightarrow> 2 \<le> length ''c''"
    by (rule inst [THEN conjunct2, THEN mp, OF h2])
  from b have c: "\<not> is_valid_email (''joao'' @ ''@'' @ ''gmail'' @ ''.'' @ ''c'')"
    by simp
  from v a have "email_shape ''joao@gmail.com''"
    by simp
  with v c h2 show ?thesis
    by simp
qed

section \<open>The loop of the batch program\<close>






lemma domain_counter_loop_body:
  "v_domain_counter (loop_body st (n, r)) =
     (if clean_email r \<noteq> [] \<and> is_valid_email (clean_email r) \<and> CHR ''@'' \<in> set (clean_email r)
      then counter_incr (after_at (clean_email r)) (v_domain_counter st)
      else v_domain_counter st)"
  by (simp add: loop_body_def Let_def)





lemma run_loop_Nil: "run_loop [] = init_locals"
  by (simp add: run_loop_def)

lemma run_loop_snoc:
  "run_loop (rows @ [r]) = loop_body (run_loop rows) (2 + length rows, r)"
proof -
  have "[2 ..< 2 + length (rows @ [r])] = [2 ..< 2 + length rows] @ [2 + length rows]"
    by simp
  then have "zip [2 ..< 2 + length (rows @ [r])] (rows @ [r])
      = zip [2 ..< 2 + length rows] rows @ [(2 + length rows, r)]"
    by (simp only: zip_append length_upt add_diff_cancel_left') simp
  then show ?thesis
    by (simp only: run_loop_def foldl_append foldl.simps)
qed












section \<open>Exact duplicates in the batch program (C3)\<close>



lemma scenario_row_identity:
  "row_identity scenario_row = (''Acme'', ''12345678901'', ''Joao'', ''joao@gmail.com'')"
  by (simp add: scenario_row_def row_identity_def creditor_name_def document_def taxpayer_def
      clean_email_def raw_email_def normalize_email_def normalize_text_def str_strip_def
      str_rstrip_def str_lower_def lower_char_def is_space_def whitespace_def
      ascii_uppercase_def ascii_lowercase_def)


section \<open>State codes from region text (C7)\<close>






section \<open>Counters\<close>

lemma map_of_counter_incr:
  "map_of (counter_incr k c) =
     (map_of c)(k \<mapsto> (case map_of c k of None \<Rightarrow> 1 | Some n \<Rightarrow> Suc n))"
  by (induction c) (auto simp: fun_eq_iff)

lemma keys_counter_incr:
  "map fst (counter_incr k c) = (if k \<in> set (map fst c) then map fst c else map fst c @ [k])"
proof (induction c)
  case Nil
  then show ?case by simp
next
  case (Cons kv c)
  obtain k' n where kv: "kv = (k', n)"
    by (cases kv)
  show ?case
  proof (cases "k = k'")
    case True
    then show ?thesis by (simp add: kv)
  next
    case False
    with Cons show ?thesis by (simp add: kv)
  qed
qed

lemma sum_counter_incr: "sum_list (map snd (counter_incr k c)) = Suc (sum_list (map snd c))"
  by (induction c) auto

lemma count_all_snoc: "count_all (ks @ [k]) = counter_incr k (count_all ks)"
  by (simp add: count_all_def)


lemma distinct_count_all: "distinct (map fst (count_all ks))"
proof (induction ks rule: rev_induct)
  case Nil
  then show ?case by (simp add: count_all_def)
next
  case (snoc k ks)
  then show ?case
    by (simp add: count_all_snoc keys_counter_incr)
qed

lemma map_of_count_all:
  "map_of (count_all ks) k = (if k \<in> set ks then Some (count_list ks k) else None)"
proof (induction ks arbitrary: k rule: rev_induct)
  case Nil
  then show ?case by (simp add: count_all_def)
next
  case (snoc x ks)
  have "x \<notin> set ks \<Longrightarrow> count_list ks x = 0"
    by (simp add: count_list_0_iff)
  with snoc [of x] snoc [of k] show ?case
    by (auto simp: count_all_snoc map_of_counter_incr)
qed

lemma sum_count_all: "sum_list (map snd (count_all ks)) = length ks"
  by (induction ks rule: rev_induct) (simp_all add: count_all_snoc sum_counter_incr count_all_def)

lemma distinct_keys_sort_key:
  assumes "distinct (map fst xs)"
  shows "distinct (map fst (sort_key f xs))"
proof -
  from assms have "distinct xs" and "inj_on fst (set xs)"
    by (simp_all add: distinct_map)
  then show ?thesis
    by (simp add: distinct_map)
qed

lemma map_of_sort_key:
  assumes "distinct (map fst xs)"
  shows "map_of (sort_key f xs) = map_of xs"
proof -
  have "set (sort_key f xs) = set xs"
    by simp
  with assms distinct_keys_sort_key [OF assms, of f] show ?thesis
    by (simp add: map_of_inject_set)
qed

lemma sum_list_insort_key:
  "sum_list (map g (insort_key f x xs)) = g x + sum_list (map g xs)"
  for g :: "'a \<Rightarrow> nat"
  by (induction xs) simp_all

lemma sum_list_sort_key: "sum_list (map g (sort_key f xs)) = sum_list (map g xs)"
  for g :: "'a \<Rightarrow> nat"
  by (induction xs) (simp_all add: sum_list_insort_key)

lemma map_of_value_counts:
  "map_of (value_counts ks) k = (if k \<in> set ks then Some (count_list ks k) else None)"
  by (simp add: value_counts_def sorted_desc_def map_of_sort_key distinct_count_all
      map_of_count_all)

lemma sum_value_counts: "sum_list (map snd (value_counts ks)) = length ks"
  by (simp add: value_counts_def sorted_desc_def sum_list_sort_key sum_count_all)

lemma set_value_counts:
  "(k, n) \<in> set (value_counts ks) \<longleftrightarrow> k \<in> set ks \<and> n = count_list ks k"
proof -
  have "distinct (map fst (value_counts ks))"
    by (simp add: value_counts_def sorted_desc_def distinct_keys_sort_key distinct_count_all)
  then have "(k, n) \<in> set (value_counts ks) \<longleftrightarrow> map_of (value_counts ks) k = Some n"
    by simp
  then show ?thesis
    by (auto simp: map_of_value_counts)
qed

section \<open>The table of the interactive program\<close>

lemma build_analysis_Inr:
  assumes "build_analysis df mapping = Inr a"
  obtains origem cpf_cnpj nome e_mail regiao
  where "a = analyse_columns origem cpf_cnpj nome e_mail regiao"
    and "pick_column df (mapping Email) = Inr e_mail"
  using assms unfolding build_analysis_def by (simp split: sum.splits) blast

lemma norm_analyse_columns:
  "E_MAIL_NORM (base (analyse_columns origem cpf_cnpj nome e_mail regiao)) = map e_mail_norm e_mail"
  by (simp add: analyse_columns_def Let_def)

lemma qtd_analyse_columns:
  "QTD_REPETICOES_EMAIL (base (analyse_columns origem cpf_cnpj nome e_mail regiao)) =
     map (\<lambda>e. if e = [] then 0 else int (count_list (map e_mail_norm e_mail) e))
       (map e_mail_norm e_mail)"
proof -
  have "(case map_of (value_counts (filter (\<lambda>e. e \<noteq> []) ns)) e of Some n \<Rightarrow> int n | None \<Rightarrow> 0)
      = (if e = [] then 0 else int (count_list ns e))" if "e \<in> set ns" for e and ns :: "string list"
  proof -
    have "count_list (filter (\<lambda>e. e \<noteq> []) ns) e = count_list ns e" if "e \<noteq> []"
      using that by (induction ns) auto
    with \<open>e \<in> set ns\<close> show ?thesis
      by (simp add: map_of_value_counts)
  qed
  then show ?thesis
    by (simp add: analyse_columns_def Let_def)
qed

lemma faixa_analyse_columns:
  "FAIXA_REPETICAO (base (analyse_columns origem cpf_cnpj nome e_mail regiao)) =
     map repeat_bucket (QTD_REPETICOES_EMAIL (base (analyse_columns origem cpf_cnpj nome e_mail regiao)))"
  by (simp add: analyse_columns_def Let_def)

lemma repeat_bucket_cases:
  "repeat_bucket v =
     (if v \<le> 1 then ''1 vez'' else if v = 2 then ''2 vezes'' else if v = 3 then ''3 vezes''
      else if v \<in> {4, 5} then ''4-5 vezes'' else if v \<in> {6 .. 10} then ''6-10 vezes''
      else ''11+ vezes'')"
  by (auto simp: repeat_bucket_def)

text \<open>
  C10: in the interactive program every row whose normalised email is empty has
  repetition count 0 and repetition bucket \<open>1 vez\<close>; \<open>repeat_bucket\<close> maps every value up
  to 1 to \<open>1 vez\<close>, 2 to \<open>2 vezes\<close>, 3 to \<open>3 vezes\<close>, 4 and 5 to \<open>4-5 vezes\<close>, 6 to 10 to
  \<open>6-10 vezes\<close> and every value from 11 on to \<open>11+ vezes\<close>; every row has one bucket.
\<close>

theorem C10_repeat_bucket:
  "(build_analysis df mapping = Inr a \<longrightarrow>
      length (QTD_REPETICOES_EMAIL (base a)) = length (E_MAIL_NORM (base a))
      \<and> length (FAIXA_REPETICAO (base a)) = length (E_MAIL_NORM (base a))
      \<and> (\<forall>i < length (E_MAIL_NORM (base a)).
            FAIXA_REPETICAO (base a) ! i = repeat_bucket (QTD_REPETICOES_EMAIL (base a) ! i)
            \<and> (E_MAIL_NORM (base a) ! i = [] \<longrightarrow>
                 QTD_REPETICOES_EMAIL (base a) ! i = 0 \<and> FAIXA_REPETICAO (base a) ! i = ''1 vez'')))
   \<and> (v \<le> 1 \<longrightarrow> repeat_bucket v = ''1 vez'')
   \<and> (v = 2 \<longrightarrow> repeat_bucket v = ''2 vezes'')
   \<and> (v = 3 \<longrightarrow> repeat_bucket v = ''3 vezes'')
   \<and> (4 \<le> v \<and> v \<le> 5 \<longrightarrow> repeat_bucket v = ''4-5 vezes'')
   \<and> (6 \<le> v \<and> v \<le> 10 \<longrightarrow> repeat_bucket v = ''6-10 vezes'')
   \<and> (11 \<le> v \<longrightarrow> repeat_bucket v = ''11+ vezes'')"
proof (intro conjI impI)
  assume "build_analysis df mapping = Inr a"
  then obtain origem cpf_cnpj nome e_mail regiao
    where a: "a = analyse_columns origem cpf_cnpj nome e_mail regiao"
    by (rule build_analysis_Inr)
  show "length (QTD_REPETICOES_EMAIL (base a)) = length (E_MAIL_NORM (base a))"
    by (simp add: a qtd_analyse_columns norm_analyse_columns)
  show "length (FAIXA_REPETICAO (base a)) = length (E_MAIL_NORM (base a))"
    by (simp add: a faixa_analyse_columns qtd_analyse_columns norm_analyse_columns)
  show "\<forall>i < length (E_MAIL_NORM (base a)).
            FAIXA_REPETICAO (base a) ! i = repeat_bucket (QTD_REPETICOES_EMAIL (base a) ! i)
            \<and> (E_MAIL_NORM (base a) ! i = [] \<longrightarrow>
                 QTD_REPETICOES_EMAIL (base a) ! i = 0 \<and> FAIXA_REPETICAO (base a) ! i = ''1 vez'')"
    by (simp add: a faixa_analyse_columns qtd_analyse_columns norm_analyse_columns
        repeat_bucket_def)
qed (simp_all add: repeat_bucket_def)

lemma length_loc_assign: "length (loc_assign m v col) = min (length m) (length col)"
  by (simp add: loc_assign_def)

lemma nth_loc_assign:
  "i < length m \<Longrightarrow> i < length col \<Longrightarrow> loc_assign m v col ! i = (if m ! i then v else col ! i)"
  by (simp add: loc_assign_def)

lemma str_join_empty: "[] \<notin> set xs \<Longrightarrow> str_join sep xs = [] \<longleftrightarrow> xs = []"
  by (induction sep xs rule: str_join.induct) auto

lemma classify_email_nonempty: "[] \<notin> set (classify_email e)"
  by (simp add: classify_email_def Let_def)

lemma suspeito_analyse_columns:
  "EMAIL_SUSPEITO (base (analyse_columns origem cpf_cnpj nome e_mail regiao)) =
     map (\<lambda>x. classify_email x \<noteq> []) (map e_mail_norm e_mail)"
  by (simp add: analyse_columns_def Let_def str_join_empty classify_email_nonempty)

lemma valido_analyse_columns:
  "EMAIL_FORMATO_VALIDO (base (analyse_columns origem cpf_cnpj nome e_mail regiao)) =
     map (re_match EMAIL_REGEX) (map e_mail_norm e_mail)"
  by (simp add: analyse_columns_def Let_def)

lemma status_analyse_columns:
  "STATUS_EMAIL (base (analyse_columns origem cpf_cnpj nome e_mail regiao)) =
     (let b = base (analyse_columns origem cpf_cnpj nome e_mail regiao)
      in loc_assign (map (\<lambda>e. e = []) (E_MAIL_NORM b)) ''Sem email''
          (loc_assign (map (\<lambda>(e, v). e \<noteq> [] \<and> \<not> v) (zip (E_MAIL_NORM b) (EMAIL_FORMATO_VALIDO b)))
             ''Invalido''
            (loc_assign (EMAIL_SUSPEITO b) ''Suspeito''
              (loc_assign (map (\<lambda>q. q > 1) (QTD_REPETICOES_EMAIL b)) ''Repetido''
                (replicate (length (E_MAIL_NORM b)) ''Unico limpo'')))))"
  by (simp add: analyse_columns_def Let_def comp_assoc)

lemma status_nth:
  assumes "i < length e_mail"
  shows "STATUS_EMAIL (base (analyse_columns origem cpf_cnpj nome e_mail regiao)) ! i =
     (let x = e_mail_norm (e_mail ! i);
          q = QTD_REPETICOES_EMAIL (base (analyse_columns origem cpf_cnpj nome e_mail regiao)) ! i
      in if x = [] then ''Sem email''
         else if \<not> re_match EMAIL_REGEX x then ''Invalido''
         else if classify_email x \<noteq> [] then ''Suspeito''
         else if q > 1 then ''Repetido'' else ''Unico limpo'')"
  using assms
  by (simp add: status_analyse_columns Let_def nth_loc_assign length_loc_assign
      norm_analyse_columns suspeito_analyse_columns valido_analyse_columns qtd_analyse_columns)

lemma last_applicable_rules:
  "last_applicable (status_rules q suspect valid x) =
     (if x = [] then ''Sem email''
      else if \<not> valid then ''Invalido''
      else if suspect then ''Suspeito''
      else if q > 1 then ''Repetido'' else ''Unico limpo'')"
  by (simp add: last_applicable_def status_rules_def)

section \<open>The status label of the interactive program (C4)\<close>

text \<open>
  C4: in the interactive program the status of every row is the label of the last
  applicable rule in the order: \<open>Unico limpo\<close> by default; \<open>Repetido\<close> if the repetition
  count of the row exceeds 1; \<open>Suspeito\<close> if a classification reason is present;
  \<open>Invalido\<close> if the normalised email is not empty and fails the format check;
  \<open>Sem email\<close> if the normalised email is empty. The repetition count is the number of
  rows with the same non-empty normalised email.
\<close>

theorem C4_status_email:
  "build_analysis df mapping = Inr a \<longrightarrow>
     length (STATUS_EMAIL (base a)) = length (E_MAIL_NORM (base a))
     \<and> (\<forall>i < length (E_MAIL_NORM (base a)).
          (let x = E_MAIL_NORM (base a) ! i;
               q = QTD_REPETICOES_EMAIL (base a) ! i;
               suspect = (classify_email x \<noteq> []);
               valid = re_match EMAIL_REGEX x
           in STATUS_EMAIL (base a) ! i = last_applicable (status_rules q suspect valid x)
              \<and> EMAIL_SUSPEITO (base a) ! i = suspect
              \<and> EMAIL_FORMATO_VALIDO (base a) ! i = valid
              \<and> q = (if x = [] then 0 else int (count_list (E_MAIL_NORM (base a)) x))))"
proof (intro impI conjI allI)
  assume "build_analysis df mapping = Inr a"
  then obtain origem cpf_cnpj nome e_mail regiao
    where a: "a = analyse_columns origem cpf_cnpj nome e_mail regiao"
    by (rule build_analysis_Inr)
  show "length (STATUS_EMAIL (base a)) = length (E_MAIL_NORM (base a))"
    by (simp add: a status_analyse_columns Let_def length_loc_assign norm_analyse_columns
        suspeito_analyse_columns valido_analyse_columns qtd_analyse_columns)
  fix i
  assume "i < length (E_MAIL_NORM (base a))"
  then have i: "i < length e_mail"
    by (simp add: a norm_analyse_columns)
  then show "let x = E_MAIL_NORM (base a) ! i;
               q = QTD_REPETICOES_EMAIL (base a) ! i;
               suspect = (classify_email x \<noteq> []);
               valid = re_match EMAIL_REGEX x
           in STATUS_EMAIL (base a) ! i = last_applicable (status_rules q suspect valid x)
              \<and> EMAIL_SUSPEITO (base a) ! i = suspect
              \<and> EMAIL_FORMATO_VALIDO (base a) ! i = valid
              \<and> q = (if x = [] then 0 else int (count_list (E_MAIL_NORM (base a)) x))"
    using status_nth [OF i, of origem cpf_cnpj nome regiao]
    by (simp add: a Let_def last_applicable_rules norm_analyse_columns suspeito_analyse_columns
        valido_analyse_columns qtd_analyse_columns)
qed

section \<open>The example table\<close>

lemma example_build: "build_analysis example_df example_mapping = Inr example_analysis"
  by (simp add: build_analysis_def pick_column_def example_df_def example_mapping_def df_len_def
      str_strip_def str_rstrip_def is_space_def whitespace_def example_analysis_def
      eval_nat_numeral)

lemma example_norm:
  "E_MAIL_NORM (base example_analysis) = [''a@b.com'', '''', ''a@b.com'', ''teste@teste.com'', ''x@y'']"
  by code_simp

lemma example_qtd: "QTD_REPETICOES_EMAIL (base example_analysis) = [2, 0, 2, 1, 1]"
  by code_simp

lemma example_faixa:
  "FAIXA_REPETICAO (base example_analysis) = [''2 vezes'', ''1 vez'', ''2 vezes'', ''1 vez'', ''1 vez'']"
  by code_simp

lemma example_status:
  "STATUS_EMAIL (base example_analysis)
     = [''Repetido'', ''Sem email'', ''Repetido'', ''Suspeito'', ''Invalido'']"
  by code_simp

lemma example_top_domains:
  "top_domains_app example_analysis = [(''b.com'', 2), (''teste.com'', 1), (''y'', 1)]"
  by code_simp

lemma example_repeated_summary: "repeated_summary example_analysis = [(''a@b.com'', 2)]"
  by code_simp

theorem C10_repeat_bucket_witness:
  "build_analysis example_df example_mapping = Inr example_analysis
   \<and> (1::nat) < length (E_MAIL_NORM (base example_analysis))
   \<and> E_MAIL_NORM (base example_analysis) ! 1 = []
   \<and> QTD_REPETICOES_EMAIL (base example_analysis) ! 1 = 0
   \<and> FAIXA_REPETICAO (base example_analysis) ! 1 = ''1 vez''
   \<and> (4::int) \<le> 5 \<and> repeat_bucket 5 = ''4-5 vezes''"
proof -
  note inst = C10_repeat_bucket [of example_df example_mapping example_analysis 5]
  from inst [THEN conjunct1, THEN mp, OF example_build]
  have rows: "\<forall>i < length (E_MAIL_NORM (base example_analysis)).
      FAIXA_REPETICAO (base example_analysis) ! i
        = repeat_bucket (QTD_REPETICOES_EMAIL (base example_analysis) ! i)
      \<and> (E_MAIL_NORM (base example_analysis) ! i = [] \<longrightarrow>
           QTD_REPETICOES_EMAIL (base example_analysis) ! i = 0
           \<and> FAIXA_REPETICAO (base example_analysis) ! i = ''1 vez'')"
    by (elim conjE)
  have l: "(1::nat) < length (E_MAIL_NORM (base example_analysis))"
    by (simp add: example_norm)
  have e: "E_MAIL_NORM (base example_analysis) ! 1 = []"
    by (simp add: example_norm)
  from rows l e have r: "QTD_REPETICOES_EMAIL (base example_analysis) ! 1 = 0
      \<and> FAIXA_REPETICAO (base example_analysis) ! 1 = ''1 vez''"
    by blast
  have "(4::int) \<le> 5 \<and> (5::int) \<le> 5"
    by simp
  with inst have b: "repeat_bucket 5 = ''4-5 vezes''"
    by blast
  from example_build l e r b show ?thesis
    by simp
qed

theorem C4_status_email_witness:
  "build_analysis example_df example_mapping = Inr example_analysis
   \<and> E_MAIL_NORM (base example_analysis)
        = [''a@b.com'', '''', ''a@b.com'', ''teste@teste.com'', ''x@y'']
   \<and> (3::nat) < length (E_MAIL_NORM (base example_analysis))
   \<and> classify_email ''teste@teste.com'' = [''placeholder_lixo'']
   \<and> re_match EMAIL_REGEX ''teste@teste.com''
   \<and> STATUS_EMAIL (base example_analysis) ! 3
        = last_applicable (status_rules 1 True True ''teste@teste.com'')
   \<and> STATUS_EMAIL (base example_analysis) ! 3 = ''Suspeito''
   \<and> STATUS_EMAIL (base example_analysis)
        = [''Repetido'', ''Sem email'', ''Repetido'', ''Suspeito'', ''Invalido'']"
proof -
  from C4_status_email [of example_df example_mapping example_analysis, THEN mp, OF example_build]
  have rows: "\<forall>i < length (E_MAIL_NORM (base example_analysis)).
          (let x = E_MAIL_NORM (base example_analysis) ! i;
               q = QTD_REPETICOES_EMAIL (base example_analysis) ! i;
               suspect = (classify_email x \<noteq> []);
               valid = re_match EMAIL_REGEX x
           in STATUS_EMAIL (base example_analysis) ! i
                = last_applicable (status_rules q suspect valid x)
              \<and> EMAIL_SUSPEITO (base example_analysis) ! i = suspect
              \<and> EMAIL_FORMATO_VALIDO (base example_analysis) ! i = valid
              \<and> q = (if x = [] then 0 else int (count_list (E_MAIL_NORM (base example_analysis)) x)))"
    by (elim conjE)
  have l: "(3::nat) < length (E_MAIL_NORM (base example_analysis))"
    by (simp add: example_norm)
  have x: "E_MAIL_NORM (base example_analysis) ! 3 = ''teste@teste.com''"
    by (simp add: example_norm)
  have q: "QTD_REPETICOES_EMAIL (base example_analysis) ! 3 = 1"
    by (simp add: example_qtd)
  have c: "classify_email ''teste@teste.com'' = [''placeholder_lixo'']"
    by code_simp
  have v: "re_match EMAIL_REGEX ''teste@teste.com''"
    by code_simp
  from rows l have "let x = E_MAIL_NORM (base example_analysis) ! 3;
               q = QTD_REPETICOES_EMAIL (base example_analysis) ! 3;
               suspect = (classify_email x \<noteq> []);
               valid = re_match EMAIL_REGEX x
           in STATUS_EMAIL (base example_analysis) ! 3
                = last_applicable (status_rules q suspect valid x)"
    by (simp add: Let_def)
  then have s: "STATUS_EMAIL (base example_analysis) ! 3
      = last_applicable (status_rules 1 True True ''teste@teste.com'')"
    by (simp add: Let_def x q c v)
  have s': "STATUS_EMAIL (base example_analysis) ! 3 = ''Suspeito''"
    by (simp add: example_status)
  from example_build example_norm l c v s s' example_status show ?thesis
    by simp
qed

section \<open>Domain counts (C8)\<close>

lemma not_local_at: "CHR ''@'' \<notin> set local_chars"
  by (simp add: local_chars_def ascii_uppercase_def ascii_lowercase_def digits_def)

lemma email_shape_domain:
  assumes "email_shape e"
  shows "CHR ''@'' \<in> set e \<and> after_at e \<noteq> []"
proof -
  from assms obtain l d t where e: "e = l @ ''@'' @ d @ ''.'' @ t"
    and l: "set l \<subseteq> set local_chars"
    unfolding email_shape_def by blast
  from l not_local_at have "\<forall>c\<in>set l. c \<noteq> CHR ''@''"
    by blast
  then have "dropWhile (\<lambda>c. c \<noteq> CHR ''@'') e = ''@'' @ d @ ''.'' @ t"
    by (simp add: e dropWhile_append3)
  then show ?thesis
    by (simp add: after_at_def e)
qed

lemma after_at_append:
  "CHR ''@'' \<in> set e \<Longrightarrow> after_at (e @ s) = after_at e @ s"
  by (induction e) (auto simp: after_at_def)

lemma valid_email_domain:
  assumes "is_valid_email e"
  shows "CHR ''@'' \<in> set e \<and> after_at e \<noteq> []"
proof -
  from assms consider "email_shape e" | e' where "e = e' @ [CHR 0x0A]" "email_shape e'"
    unfolding is_valid_email_iff by blast
  then show ?thesis
  proof cases
    case 1
    then show ?thesis by (rule email_shape_domain)
  next
    case 2
    from email_shape_domain [OF 2(2)] show ?thesis
      by (simp add: 2(1) after_at_append)
  qed
qed

lemma domain_counter_run_loop:
  "v_domain_counter (run_loop rows)
     = count_all (map (\<lambda>r. after_at (clean_email r)) (filter valid_email_row rows))"
proof (induction rows rule: rev_induct)
  case Nil
  then show ?case by (simp add: run_loop_Nil init_locals_def count_all_def)
next
  case (snoc r rows)
  show ?case
  proof (cases "valid_email_row r")
    case True
    then have "CHR ''@'' \<in> set (clean_email r)"
      using valid_email_domain by (simp add: valid_email_row_def)
    with True snoc show ?thesis
      by (simp add: run_loop_snoc domain_counter_loop_body valid_email_row_def count_all_snoc)
  next
    case False
    with snoc show ?thesis
      by (auto simp: run_loop_snoc domain_counter_loop_body valid_email_row_def)
  qed
qed

lemma set_count_all:
  "(k, n) \<in> set (count_all ks) \<longleftrightarrow> k \<in> set ks \<and> n = count_list ks k"
proof -
  have "(k, n) \<in> set (count_all ks) \<longleftrightarrow> map_of (count_all ks) k = Some n"
    using distinct_count_all [of ks] by simp
  then show ?thesis
    by (auto simp: map_of_count_all)
qed

lemma count_list_map_filter:
  "count_list (map f (filter P xs)) d = length (filter (\<lambda>x. P x \<and> f x = d) xs)"
  by (induction xs) auto

lemma domain_series_analyse_columns:
  "top_domains_app (analyse_columns origem cpf_cnpj nome e_mail regiao)
     = value_counts (map after_at
         (filter (\<lambda>e. e \<noteq> [] \<and> CHR ''@'' \<in> set e) (map e_mail_norm e_mail)))"
  by (simp add: analyse_columns_def Let_def conj_commute)

text \<open>
  C8, as stated, fails for the interactive program: its \<open>top_domains\<close> table counts every
  row whose normalised email contains \<open>@\<close>, valid or not. In the example table the email
  \<open>x@y\<close> fails the format check and is counted under the domain \<open>y\<close>: the counts sum to 4
  while 3 rows have a valid email.
\<close>

theorem C8_invalid_email_counted:
  "build_analysis example_df example_mapping = Inr example_analysis
   \<and> E_MAIL_NORM (base example_analysis) ! 4 = ''x@y''
   \<and> \<not> EMAIL_FORMATO_VALIDO (base example_analysis) ! 4
   \<and> top_domains_app example_analysis = [(''b.com'', 2), (''teste.com'', 1), (''y'', 1)]
   \<and> sum_list (map snd (top_domains_app example_analysis)) = 4
   \<and> length (filter id (EMAIL_FORMATO_VALIDO (base example_analysis))) = 3"
proof -
  have v: "EMAIL_FORMATO_VALIDO (base example_analysis) = [True, False, True, True, False]"
    by code_simp
  show ?thesis
    by (simp add: example_build example_norm example_top_domains v)
qed

text \<open>
  C8, amended: the domain counter of the batch program counts exactly the rows whose
  normalised email is not empty and passes the format check, each under what follows
  the first \<open>@\<close>, which is never empty, so its counts sum to the number of those rows. The
  \<open>top_domains\<close> table of the interactive program counts exactly the rows whose
  normalised email is not empty and contains \<open>@\<close>, whether valid or not, each under what
  follows the first \<open>@\<close>, and its counts sum to the number of those rows.
\<close>

theorem C8_domain_counts:
  "sum_list (map snd (v_domain_counter (run_loop rows))) = length (filter valid_email_row rows)
   \<and> ((d, n) \<in> set (v_domain_counter (run_loop rows)) \<longleftrightarrow>
        0 < n \<and> n = length (filter (\<lambda>r. valid_email_row r \<and> after_at (clean_email r) = d) rows))
   \<and> (\<forall>r \<in> set rows. valid_email_row r \<longrightarrow> after_at (clean_email r) \<noteq> [])
   \<and> (build_analysis df mapping = Inr a \<longrightarrow>
        sum_list (map snd (top_domains_app a))
          = length (filter (\<lambda>e. e \<noteq> [] \<and> CHR ''@'' \<in> set e) (E_MAIL_NORM (base a)))
        \<and> ((d, n) \<in> set (top_domains_app a) \<longleftrightarrow>
             0 < n \<and> n = length (filter (\<lambda>e. (e \<noteq> [] \<and> CHR ''@'' \<in> set e) \<and> after_at e = d)
                                  (E_MAIL_NORM (base a)))))"
proof (intro conjI impI ballI)
  show "sum_list (map snd (v_domain_counter (run_loop rows))) = length (filter valid_email_row rows)"
    by (simp add: domain_counter_run_loop sum_count_all)
  show "(d, n) \<in> set (v_domain_counter (run_loop rows)) \<longleftrightarrow>
        0 < n \<and> n = length (filter (\<lambda>r. valid_email_row r \<and> after_at (clean_email r) = d) rows)"
    unfolding domain_counter_run_loop set_count_all count_list_map_filter
    by (auto simp: filter_empty_conv)
  show "after_at (clean_email r) \<noteq> []" if "valid_email_row r" for r
    using that valid_email_domain by (simp add: valid_email_row_def)
next
  assume "build_analysis df mapping = Inr a"
  then obtain origem cpf_cnpj nome e_mail regiao
    where a: "a = analyse_columns origem cpf_cnpj nome e_mail regiao"
    by (rule build_analysis_Inr)
  show "sum_list (map snd (top_domains_app a))
          = length (filter (\<lambda>e. e \<noteq> [] \<and> CHR ''@'' \<in> set e) (E_MAIL_NORM (base a)))"
    by (simp add: a domain_series_analyse_columns sum_value_counts norm_analyse_columns)
  show "(d, n) \<in> set (top_domains_app a) \<longleftrightarrow>
             0 < n \<and> n = length (filter (\<lambda>e. (e \<noteq> [] \<and> CHR ''@'' \<in> set e) \<and> after_at e = d)
                                  (E_MAIL_NORM (base a)))"
    unfolding a domain_series_analyse_columns set_value_counts count_list_map_filter
      norm_analyse_columns
    by (auto simp: filter_empty_conv)
qed

theorem C8_domain_counts_witness:
  "valid_email_row scenario_row
   \<and> scenario_row \<in> set [scenario_row]
   \<and> after_at (clean_email scenario_row) = ''gmail.com''
   \<and> after_at (clean_email scenario_row) \<noteq> []
   \<and> sum_list (map snd (v_domain_counter (run_loop [scenario_row]))) = 1
   \<and> build_analysis example_df example_mapping = Inr example_analysis
   \<and> sum_list (map snd (top_domains_app example_analysis)) = 4
   \<and> length (filter (\<lambda>e. e \<noteq> [] \<and> CHR ''@'' \<in> set e) (E_MAIL_NORM (base example_analysis))) = 4"
proof -
  have c: "clean_email scenario_row = ''joao@gmail.com''"
    using scenario_row_identity by (simp add: row_identity_def)
  have v: "valid_email_row scenario_row"
    unfolding valid_email_row_def c by code_simp
  have d: "after_at (clean_email scenario_row) = ''gmail.com''"
    unfolding c by (simp add: after_at_def)
  note inst = C8_domain_counts [of "[scenario_row]" "''gmail.com''" 1 example_df example_mapping
      example_analysis]
  from inst have s: "sum_list (map snd (v_domain_counter (run_loop [scenario_row])))
      = length (filter valid_email_row [scenario_row])"
    by (rule conjunct1)
  from inst have "\<forall>r \<in> set [scenario_row]. valid_email_row r \<longrightarrow> after_at (clean_email r) \<noteq> []"
    by (elim conjE)
  with v have n: "after_at (clean_email scenario_row) \<noteq> []"
    by simp
  from inst have "build_analysis example_df example_mapping = Inr example_analysis \<longrightarrow>
      sum_list (map snd (top_domains_app example_analysis))
        = length (filter (\<lambda>e. e \<noteq> [] \<and> CHR ''@'' \<in> set e) (E_MAIL_NORM (base example_analysis)))
      \<and> ((''gmail.com'', 1) \<in> set (top_domains_app example_analysis) \<longleftrightarrow>
           0 < (1::nat) \<and> 1 = length (filter (\<lambda>e. (e \<noteq> [] \<and> CHR ''@'' \<in> set e)
                \<and> after_at e = ''gmail.com'') (E_MAIL_NORM (base example_analysis))))"
    by (elim conjE)
  with example_build have t: "sum_list (map snd (top_domains_app example_analysis))
      = length (filter (\<lambda>e. e \<noteq> [] \<and> CHR ''@'' \<in> set e) (E_MAIL_NORM (base example_analysis)))"
    by blast
  have t4: "sum_list (map snd (top_domains_app example_analysis)) = 4"
    by (simp add: example_top_domains)
  from v d n s example_build t t4 show ?thesis
    by simp
qed

section \<open>The column resolver (C5)\<close>









section \<open>Failures on reading the input (C9)\<close>



section \<open>Rankings (C1)\<close>




























end
